theory Spec2Isabelle
  imports Complex_Main
begin

section \<open>Python values, exceptions and dictionaries\<close>

text \<open>
  The filing documents are JSON objects decoded into Python dictionaries. A key that may
  be missing is an \<open>option\<close> field; \<open>d[k]\<close> on a missing key raises \<open>KeyError\<close>,
  \<open>d.get(k, default)\<close> does not. Exceptions are values: a function that may raise returns
  \<open>py_error + 'a\<close>, with \<open>Inl\<close> for the exception.

  JSON numbers are modelled as exact rationals; Python's binary floating point (rounding
  error of \<open>+\<close>, \<open>*\<close>, \<open>/\<close> and of \<open>round\<close>) is idealised away.
\<close>

datatype py_error = KeyError string | IndexError | ZeroDivisionError | OtherException string

definition subscript :: "string \<Rightarrow> 'a option \<Rightarrow> py_error + 'a" where
  "subscript k v = (case v of None \<Rightarrow> Inl (KeyError k) | Some x \<Rightarrow> Inr x)"

definition get_default :: "'a option \<Rightarrow> 'a \<Rightarrow> 'a" where
  "get_default v d = (case v of None \<Rightarrow> d | Some x \<Rightarrow> x)"

definition and_then :: "py_error + 'a \<Rightarrow> ('a \<Rightarrow> py_error + 'b) \<Rightarrow> py_error + 'b" where
  "and_then m f = (case m of Inl e \<Rightarrow> Inl e | Inr x \<Rightarrow> f x)"

text \<open>A \<open>for\<close> loop over a list whose body may raise: the first exception leaves the loop.\<close>

fun for_each :: "('a \<Rightarrow> 's \<Rightarrow> py_error + 's) \<Rightarrow> 'a list \<Rightarrow> 's \<Rightarrow> py_error + 's" where
  "for_each body [] s = Inr s"
| "for_each body (x # xs) s = and_then (body x s) (for_each body xs)"

text \<open>
  A dictionary of lists, in insertion order (the order \<open>.items()\<close> and \<open>.values()\<close>
  iterate in). \<open>dict_append d k v\<close> is
  \<^verbatim>\<open>if k not in d: d[k] = []\<close> followed by \<^verbatim>\<open>d[k].append(v)\<close>.
\<close>

fun dict_append :: "('k \<times> 'v list) list \<Rightarrow> 'k \<Rightarrow> 'v \<Rightarrow> ('k \<times> 'v list) list" where
  "dict_append [] k v = [(k, [v])]"
| "dict_append ((k', vs) # d) k v =
     (if k' = k then (k', vs @ [v]) # d else (k', vs) # dict_append d k v)"

definition py_truediv :: "rat \<Rightarrow> rat \<Rightarrow> py_error + rat" where
  "py_truediv a b = (if b = 0 then Inl ZeroDivisionError else Inr (a / b))"

text \<open>\<open>round(x, 4)\<close>: to the nearest multiple of \<open>1/10000\<close>, ties to the even one.\<close>

definition round_half_even :: "rat \<Rightarrow> int" where
  "round_half_even x =
     (let f = \<lfloor>x\<rfloor>; d = x - of_int f
      in if d < 1 / 2 then f else if 1 / 2 < d then f + 1 else if even f then f else f + 1)"

definition round4 :: "rat \<Rightarrow> rat" where
  "round4 x = of_int (round_half_even (x * 10000)) / 10000"

section \<open>The filing document\<close>

record tx_coding =
  code :: "string option"

record tx_amounts =
  shares :: "rat option"
  pricePerShare :: "rat option"

record tx_ownership =
  directOrIndirectOwnership :: "string option"
  natureOfOwnership :: "string option"

record snapshot =
  sharesOwnedFollowingTransaction :: "rat option"

record transaction =
  coding :: "tx_coding option"
  amounts :: "tx_amounts option"
  ownershipNature :: "tx_ownership option"
  postTransactionAmounts :: "snapshot option"

record holding =
  holding_postTransactionAmounts :: "snapshot option"

record issuer_info =
  tradingSymbol :: "string option"
  issuer_name :: "string option"
  issuer_cik :: "string option"

record relationship_info =
  isOfficer :: "bool option"
  officerTitle :: "string option"

record owner_info =
  owner_name :: "string option"
  relationship :: "relationship_info option"

text \<open>
  \<open>holdings\<close> is \<open>None\<close> when the key is missing or its value is not a list; both are
  skipped by the extractor (an empty list is skipped too, and adds nothing either way).
\<close>

record table =
  transactions :: "transaction list option"
  holdings :: "holding list option"

record filing =
  issuer :: "issuer_info option"
  reportingOwner :: "owner_info option"
  nonDerivativeTable :: "table option"
  doc_id :: "string option"
  doc_accessionNo :: "string option"
  doc_periodOfReport :: "string option"
  filedAt :: "string option"
  doc_link :: "string option"

text \<open>The record the extractor emits (the dictionary appended to \<open>results\<close>).\<close>

record trade =
  filling :: string
  ticker :: string
  cik :: string
  q :: string
  sector :: string
  market_cap :: string
  accessionNo :: string
  periodOfReport :: string
  transaction_type :: string
  ceo_name :: string
  company_name :: string
  total_shares :: rat
  share_price :: rat
  disclosed_date :: string
  total_amount_spent :: rat
  total_shares_after_transaction :: rat
  link :: "string option"
  change_in_shares_percentage :: rat
  one_week_return :: "rat option"
  one_month_return :: "rat option"
  six_months_return :: "rat option"

text \<open>
  The module \<open>constants\<close> (the ticker tables and the officer titles) is configuration
  outside the sources at hand; its tables are parameters.
\<close>

record constants =
  sectors_with_ticker :: "(string \<times> string list) list"
  market_cap_with_ticker :: "(string \<times> string list) list"
  officer_titles :: "string list"

section \<open>formatters.py\<close>

fun first_key_containing :: "(string \<times> string list) list \<Rightarrow> string \<Rightarrow> string" where
  "first_key_containing [] t = ''N/A''"
| "first_key_containing ((key, val) # kvs) t =
     (if t \<in> set val then key else first_key_containing kvs t)"

definition get_sector :: "constants \<Rightarrow> string \<Rightarrow> string" where
  "get_sector c t = first_key_containing (sectors_with_ticker c) t"

definition get_market_cap :: "constants \<Rightarrow> string \<Rightarrow> string" where
  "get_market_cap c t = first_key_containing (market_cap_with_ticker c) t"

section \<open>utils.py\<close>

definition extract_last_item :: "snapshot list \<Rightarrow> rat" where
  "extract_last_item grp =
     (if grp \<noteq> [] then get_default (sharesOwnedFollowingTransaction (last grp)) 0 else 0)"

definition coding_code :: "transaction \<Rightarrow> py_error + string" where
  "coding_code t =
     and_then (subscript ''coding'' (coding t)) (\<lambda>c. subscript ''code'' (code c))"

definition group_transaction_by_coding ::
  "transaction list \<Rightarrow> py_error + (string \<times> transaction list) list" where
  "group_transaction_by_coding ts =
     for_each (\<lambda>t combined. and_then (coding_code t) (\<lambda>k. Inr (dict_append combined k t)))
       ts []"

fun get_all_codings :: "transaction list \<Rightarrow> py_error + string list" where
  "get_all_codings [] = Inr []"
| "get_all_codings (t # ts) =
     and_then (coding_code t) (\<lambda>k. and_then (get_all_codings ts) (\<lambda>ks. Inr (k # ks)))"

text \<open>
  The state of the loop over one group's transactions: the two running totals (which
  the function declares once, before the loop over the groups) and
  \<open>grouped_transactions\<close>, with its list \<open>'D'\<close> and its dictionary \<open>'indirect'\<close>.
\<close>

record group_state =
  gs_total_shares :: rat
  gs_total_amount_spent :: rat
  gs_D :: "snapshot list"
  gs_indirect :: "(string option \<times> snapshot list) list"

definition add_transaction :: "transaction \<Rightarrow> group_state \<Rightarrow> py_error + group_state" where
  "add_transaction t s =
     and_then (subscript ''amounts'' (amounts t)) (\<lambda>a.
     and_then (subscript ''shares'' (shares a)) (\<lambda>n.
     and_then (subscript ''ownershipNature'' (ownershipNature t)) (\<lambda>own.
     and_then (subscript ''directOrIndirectOwnership'' (directOrIndirectOwnership own))
       (\<lambda>ownership_type.
     and_then (subscript ''postTransactionAmounts'' (postTransactionAmounts t))
       (\<lambda>post_transaction_amounts.
       let s1 = s\<lparr>gs_total_shares := gs_total_shares s + n,
                  gs_total_amount_spent :=
                    gs_total_amount_spent s + n * get_default (pricePerShare a) 0\<rparr>
       in if ownership_type = ''I''
          then Inr (s1\<lparr>gs_indirect :=
                 dict_append (gs_indirect s1) (natureOfOwnership own)
                   post_transaction_amounts\<rparr>)
          else Inr (s1\<lparr>gs_D := gs_D s1 @ [post_transaction_amounts]\<rparr>))))))"

definition first_share_price :: "filing \<Rightarrow> py_error + rat" where
  "first_share_price d =
     and_then (subscript ''nonDerivativeTable'' (nonDerivativeTable d)) (\<lambda>tbl.
     and_then (subscript ''transactions'' (transactions tbl)) (\<lambda>ts.
     and_then (case ts of [] \<Rightarrow> Inl IndexError | t # _ \<Rightarrow> Inr t) (\<lambda>t.
     and_then (subscript ''amounts'' (amounts t)) (\<lambda>a.
       Inr (get_default (pricePerShare a) 0)))))"

definition holding_shares :: "holding \<Rightarrow> rat" where
  "holding_shares x =
     (case holding_postTransactionAmounts x of
        None \<Rightarrow> 0
      | Some p \<Rightarrow> (case sharesOwnedFollowingTransaction p of None \<Rightarrow> 0 | Some n \<Rightarrow> n))"

definition holdings_total :: "filing \<Rightarrow> py_error + rat" where
  "holdings_total d =
     and_then (subscript ''nonDerivativeTable'' (nonDerivativeTable d)) (\<lambda>tbl.
       Inr (case holdings tbl of None \<Rightarrow> 0 | Some hs \<Rightarrow> sum_list (map holding_shares hs)))"

definition percentage :: "rat \<Rightarrow> rat \<Rightarrow> py_error + rat" where
  "percentage n m =
     (if m \<noteq> 0 then and_then (py_truediv n m) (\<lambda>r. Inr (r * 100)) else Inr 0)"

text \<open>
  The state of the loop over the groups: the running totals and \<open>results\<close>. The header
  values \<open>ticker\<close>, \<open>ceo_name\<close> and \<open>company_name\<close> are read before the loop.
\<close>

record extract_state =
  es_total_shares :: rat
  es_total_amount_spent :: rat
  es_results :: "trade list"

definition process_group ::
  "constants \<Rightarrow> filing \<Rightarrow> string \<Rightarrow> string \<Rightarrow> string \<Rightarrow>
   string \<times> transaction list \<Rightarrow> extract_state \<Rightarrow> py_error + extract_state" where
  "process_group c d tick ceo company grp st =
     (case grp of (gcode, txs) \<Rightarrow>
       if gcode \<in> set [''P'', ''S''] then
         and_then (for_each add_transaction txs
            \<lparr>gs_total_shares = es_total_shares st,
             gs_total_amount_spent = es_total_amount_spent st,
             gs_D = [], gs_indirect = []\<rparr>) (\<lambda>g.
         let last_items_d = extract_last_item (gs_D g);
             last_items_combined =
               last_items_d # map (\<lambda>(key, nested_group). extract_last_item nested_group)
                                 (gs_indirect g)
         in
         and_then (subscript ''filedAt'' (filedAt d)) (\<lambda>date.
         and_then (first_share_price d) (\<lambda>price.
         and_then (holdings_total d) (\<lambda>held.
         let total_shares_after_purchase = sum_list last_items_combined + held in
         and_then (percentage (gs_total_shares g) total_shares_after_purchase) (\<lambda>change.
         and_then (subscript ''id'' (doc_id d)) (\<lambda>fid.
         and_then (subscript ''issuer'' (issuer d)) (\<lambda>iss.
         and_then (subscript ''cik'' (issuer_cik iss)) (\<lambda>icik.
         and_then (subscript ''accessionNo'' (doc_accessionNo d)) (\<lambda>acc.
         and_then (subscript ''periodOfReport'' (doc_periodOfReport d)) (\<lambda>period.
           Inr \<lparr>es_total_shares = gs_total_shares g,
                es_total_amount_spent = gs_total_amount_spent g,
                es_results = es_results st @
                  [\<lparr>filling = fid, ticker = tick, cik = icik,
                    q = ceo @ '' - '' @ company,
                    sector = get_sector c tick, market_cap = get_market_cap c tick,
                    accessionNo = acc, periodOfReport = period,
                    transaction_type = gcode, ceo_name = ceo, company_name = company,
                    total_shares = gs_total_shares g, share_price = price,
                    disclosed_date = date,
                    total_amount_spent = gs_total_amount_spent g,
                    total_shares_after_transaction = total_shares_after_purchase,
                    link = doc_link d,
                    change_in_shares_percentage = round4 change,
                    one_week_return = None, one_month_return = None,
                    six_months_return = None\<rparr>]\<rparr>))))))))))
       else Inr st)"

definition extract_insider_trades_info_single ::
  "constants \<Rightarrow> filing \<Rightarrow> py_error + trade list" where
  "extract_insider_trades_info_single c d =
     and_then (subscript ''issuer'' (issuer d)) (\<lambda>iss.
     and_then (subscript ''tradingSymbol'' (tradingSymbol iss)) (\<lambda>tick.
     and_then (subscript ''reportingOwner'' (reportingOwner d)) (\<lambda>own.
     and_then (subscript ''name'' (owner_name own)) (\<lambda>ceo.
     and_then (subscript ''name'' (issuer_name iss)) (\<lambda>company.
     and_then (subscript ''nonDerivativeTable'' (nonDerivativeTable d)) (\<lambda>tbl.
     and_then (subscript ''transactions'' (transactions tbl)) (\<lambda>ts.
     and_then (group_transaction_by_coding ts) (\<lambda>groups.
     and_then (for_each (process_group c d tick ceo company) groups
        \<lparr>es_total_shares = 0, es_total_amount_spent = 0, es_results = []\<rparr>) (\<lambda>st.
       Inr (es_results st))))))))))"

section \<open>stream.py\<close>

text \<open>
  The coroutines of the stream client are sequential code: \<open>await f(x)\<close> runs \<open>f(x)\<close> to
  its end before the awaiting coroutine goes on. What they do to the outside world is a
  trace of events; the outside world (the stream, the detail provider, the keep-alive
  task) is a parameter.
\<close>

record filing_event =
  formType :: "string option"
  ev_ticker :: "string option"
  companyName :: "string option"
  ev_accessionNo :: "string option"
  linkToFilingDetails :: "string option"

text \<open>The answer of \<open>insiderTradingApi.get_data\<close>: \<open>total.value\<close> and \<open>transactions\<close>.\<close>

record api_response =
  total_value :: nat
  api_transactions :: "filing list"

type_synonym detail_provider = "string \<Rightarrow> py_error + api_response"

datatype event =
    Connect
  | Connected
  | Recv
  | Sleep nat
  | GetData string
  | SignalNotification "trade list"
  | InsertData "trade list"
  | PrintFailed py_error
  | PrintReconnecting nat
  | CancelPing
  | PrintStopping

fun contains :: "string \<Rightarrow> string \<Rightarrow> bool" where
  "contains [] sub = (sub = [])"
| "contains (ch # s) sub = (take (length sub) (ch # s) = sub \<or> contains s sub)"

text \<open>
  The decision of \<open>fetch_insider_trades\<close> on a fetched document: is the filer an officer
  with a CEO title who reports a purchase or a sale.
\<close>

definition is_ceo_trade :: "constants \<Rightarrow> filing \<Rightarrow> py_error + bool" where
  "is_ceo_trade c data =
     (let rel = Option.bind (reportingOwner data) relationship;
          is_officer = get_default (Option.bind rel isOfficer) False
      in if is_officer then
           (let officer_title = get_default (Option.bind rel officerTitle) [] in
            and_then (subscript ''nonDerivativeTable'' (nonDerivativeTable data)) (\<lambda>tbl.
            and_then (subscript ''transactions'' (transactions tbl)) (\<lambda>ts.
            and_then (get_all_codings ts) (\<lambda>codings.
              let is_sale_or_purchase = (''P'' \<in> set codings \<or> ''S'' \<in> set codings)
              in Inr ((contains officer_title ''CEO'' \<or> officer_title \<in> set (officer_titles c))
                      \<and> is_sale_or_purchase)))))
         else Inr False)"

text \<open>
  \<open>fetch_insider_trades\<close> returns its trace and the exception it ended with, if any.
  The two fan-out calls are inside \<open>try\<close> blocks of their own, so their failures end
  nothing.
\<close>

definition fetch_insider_trades ::
  "constants \<Rightarrow> detail_provider \<Rightarrow> string \<Rightarrow> string \<Rightarrow> string \<Rightarrow> event list \<times> py_error option"
  where
  "fetch_insider_trades c api acc_no tick lnk =
     (let evs = [Sleep 15, GetData acc_no] in
      case api acc_no of
        Inl e \<Rightarrow> (evs, Some e)
      | Inr insider_trades \<Rightarrow>
          if total_value insider_trades \<noteq> 0 then
            (case api_transactions insider_trades of
               [] \<Rightarrow> (evs, Some IndexError)
             | data # _ \<Rightarrow>
                 (case is_ceo_trade c data of
                    Inl e \<Rightarrow> (evs, Some e)
                  | Inr False \<Rightarrow> (evs, None)
                  | Inr True \<Rightarrow>
                      (case extract_insider_trades_info_single c data of
                         Inl e \<Rightarrow> (evs, Some e)
                       | Inr results \<Rightarrow>
                           (let formated_data = map (\<lambda>d. d\<lparr>link := Some lnk\<rparr>) results
                            in (evs @ [SignalNotification formated_data,
                                       InsertData formated_data], None)))))
          else (evs, None))"

definition on_filings :: "constants \<Rightarrow> detail_provider \<Rightarrow> filing_event \<Rightarrow> event list" where
  "on_filings c api f =
     (let form_type = get_default (formType f) [];
          tick = get_default (ev_ticker f) [];
          acc_no = get_default (ev_accessionNo f) [];
          lnk = get_default (linkToFilingDetails f) []
      in if form_type \<in> set [''4'', ''4/A''] \<and> acc_no \<noteq> [] then
           (case fetch_insider_trades c api acc_no tick lnk of
              (evs, None) \<Rightarrow> evs
            | (evs, Some e) \<Rightarrow> evs @ [PrintFailed e])
         else [])"

text \<open>
  A stream message decodes to a batch of filing events, or \<open>json.loads\<close> raises. The
  messages of one connection are a list; after the last one \<open>recv\<close> raises (the
  connection is lost). \<open>receive_loop\<close> is the \<open>while True\<close> loop of \<open>main\<close>; it only ends
  with an exception.
\<close>

datatype message = Batch "filing_event list" | Undecodable

fun receive_loop :: "constants \<Rightarrow> detail_provider \<Rightarrow> message list \<Rightarrow> event list" where
  "receive_loop c api [] = []"
| "receive_loop c api (Undecodable # ms) = [Recv]"
| "receive_loop c api (Batch filings # ms) =
     Recv # concat (map (on_filings c api) filings) @ receive_loop c api ms"

text \<open>
  One connect attempt, as the outside world decides it: the connection fails, or it is
  made and carries some messages before it is lost. \<open>ping_await\<close> is what
  \<open>await ping_task\<close> does after \<open>ping_task.cancel()\<close>: it returns or raises an
  \<open>Exception\<close> (which the handler swallows), or it raises \<open>CancelledError\<close>, which is
  not an \<open>Exception\<close> in Python 3.8 and later and leaves \<open>main\<close>.
\<close>

datatype ping_await = PingSettled | PingCancelledError

datatype attempt = ConnectFails ping_await | Session "message list" ping_await

datatype status = Stopped | Crashed | Pending

record main_state =
  retry_counter :: nat
  ping_task :: bool

definition max_retries :: nat where
  "max_retries = 10"

text \<open>The \<open>except Exception\<close> block of \<open>main\<close>, up to the cancelling of the keep-alive.\<close>

definition handle_exception ::
  "ping_await \<Rightarrow> main_state \<Rightarrow> event list \<times> main_state option" where
  "handle_exception pa s =
     (let s1 = s\<lparr>retry_counter := retry_counter s + 1\<rparr>;
          evs = [PrintReconnecting (retry_counter s1)]
      in if ping_task s1 then
           (case pa of
              PingSettled \<Rightarrow> (evs @ [CancelPing, Sleep 5], Some (s1\<lparr>ping_task := False\<rparr>))
            | PingCancelledError \<Rightarrow> (evs @ [CancelPing], None))
         else (evs @ [Sleep 5], Some s1))"

text \<open>
  \<open>main\<close> over the attempts the outside world offers. \<open>Pending\<close>: the loop wants to
  connect again and the offered attempts are used up.
\<close>

fun main_loop ::
  "constants \<Rightarrow> detail_provider \<Rightarrow> attempt list \<Rightarrow> main_state \<Rightarrow> event list \<times> status" where
  "main_loop c api [] s =
     (if retry_counter s < max_retries then ([], Pending) else ([PrintStopping], Stopped))"
| "main_loop c api (a # as) s =
     (if retry_counter s < max_retries then
        (let (evs, pa, s1) =
           (case a of
              ConnectFails pa \<Rightarrow> ([Connect], pa, s)
            | Session ms pa \<Rightarrow>
                (Connect # Connected # receive_loop c api ms, pa,
                 s\<lparr>retry_counter := 0, ping_task := True\<rparr>))
         in case handle_exception pa s1 of
              (hevs, None) \<Rightarrow> (evs @ hevs, Crashed)
            | (hevs, Some s2) \<Rightarrow>
                (case main_loop c api as s2 of (rest, st) \<Rightarrow> (evs @ hevs @ rest, st)))
      else ([PrintStopping], Stopped))"

definition main :: "constants \<Rightarrow> detail_provider \<Rightarrow> attempt list \<Rightarrow> event list \<times> status" where
  "main c api as = main_loop c api as \<lparr>retry_counter = 0, ping_task = False\<rparr>"

section \<open>The notions the properties are stated with\<close>

text \<open>What a transaction carries, read without raising.\<close>

definition tx_code :: "transaction \<Rightarrow> string option" where
  "tx_code t = Option.bind (coding t) code"

definition tx_shares :: "transaction \<Rightarrow> rat" where
  "tx_shares t = get_default (Option.bind (amounts t) shares) 0"

definition tx_price :: "transaction \<Rightarrow> rat" where
  "tx_price t = get_default (Option.bind (amounts t) pricePerShare) 0"

definition tx_ownership :: "transaction \<Rightarrow> string option" where
  "tx_ownership t = Option.bind (ownershipNature t) directOrIndirectOwnership"

definition tx_nature :: "transaction \<Rightarrow> string option" where
  "tx_nature t = Option.bind (ownershipNature t) natureOfOwnership"

definition tx_snapshot :: "transaction \<Rightarrow> snapshot" where
  "tx_snapshot t = get_default (postTransactionAmounts t) \<lparr>sharesOwnedFollowingTransaction = None\<rparr>"

definition tx_after :: "transaction \<Rightarrow> rat" where
  "tx_after t =
     get_default (Option.bind (postTransactionAmounts t) sharesOwnedFollowingTransaction) 0"

definition doc_transactions :: "filing \<Rightarrow> transaction list" where
  "doc_transactions d = get_default (Option.bind (nonDerivativeTable d) transactions) []"

definition doc_holdings :: "filing \<Rightarrow> holding list" where
  "doc_holdings d = get_default (Option.bind (nonDerivativeTable d) holdings) []"

text \<open>The group of a code: the document's transactions with that code, in filing order.\<close>

definition group_of :: "string \<Rightarrow> filing \<Rightarrow> transaction list" where
  "group_of k d = filter (\<lambda>t. tx_code t = Some k) (doc_transactions d)"

text \<open>
  The fields the data model gives every transaction and every document; the optional
  ones (\<open>pricePerShare\<close>, \<open>natureOfOwnership\<close>, \<open>sharesOwnedFollowingTransaction\<close>,
  \<open>holdings\<close>, \<open>link\<close>) are not asked for.
\<close>

definition complete_transaction :: "transaction \<Rightarrow> bool" where
  "complete_transaction t \<longleftrightarrow>
     Option.bind (amounts t) shares \<noteq> None \<and> tx_ownership t \<noteq> None \<and>
     postTransactionAmounts t \<noteq> None"

definition header_present :: "filing \<Rightarrow> bool" where
  "header_present d \<longleftrightarrow>
     Option.bind (issuer d) tradingSymbol \<noteq> None \<and>
     Option.bind (issuer d) issuer_name \<noteq> None \<and>
     Option.bind (reportingOwner d) owner_name \<noteq> None \<and>
     Option.bind (nonDerivativeTable d) transactions \<noteq> None"


text \<open>
  The post-transaction share count, in the words of the specification: the last direct
  transaction of the group, the last transaction of every distinct nature among the
  indirect ones, and the holdings that carry a count. A snapshot without
  \<open>sharesOwnedFollowingTransaction\<close> counts 0.
\<close>

definition last_after :: "transaction list \<Rightarrow> rat" where
  "last_after ts = (if ts = [] then 0 else tx_after (last ts))"

definition direct_contribution :: "transaction list \<Rightarrow> rat" where
  "direct_contribution grp = last_after (filter (\<lambda>t. tx_ownership t = Some ''D'') grp)"

definition indirect_contribution :: "transaction list \<Rightarrow> rat" where
  "indirect_contribution grp =
     (let ind = filter (\<lambda>t. tx_ownership t = Some ''I'') grp
      in sum_list (map (\<lambda>n. last_after (filter (\<lambda>t. tx_nature t = n) ind))
                       (remdups (map tx_nature ind))))"

definition holdings_contribution :: "filing \<Rightarrow> rat" where
  "holdings_contribution d =
     sum_list (List.map_filter
       (\<lambda>h. Option.bind (holding_postTransactionAmounts h) sharesOwnedFollowingTransaction)
       (doc_holdings d))"

definition spec_total_shares_after :: "filing \<Rightarrow> transaction list \<Rightarrow> rat" where
  "spec_total_shares_after d grp =
     direct_contribution grp + indirect_contribution grp + holdings_contribution d"

text \<open>The direct partition as the extractor fills it: every marker other than \<open>I\<close>.\<close>

definition direct_partition :: "transaction list \<Rightarrow> transaction list" where
  "direct_partition grp = filter (\<lambda>t. tx_ownership t \<noteq> Some ''I'') grp"

definition spec_change_in_shares_percentage :: "rat \<Rightarrow> rat \<Rightarrow> rat" where
  "spec_change_in_shares_percentage n m = (if m \<noteq> 0 then round4 (n / m * 100) else 0)"

text \<open>The dictionary a sequence of \<open>dict_append\<close> builds from the pairs it is given.\<close>

definition dict_of :: "('k \<times> 'v list) list \<Rightarrow> ('k \<times> 'v) list \<Rightarrow> ('k \<times> 'v list) list" where
  "dict_of d0 kvs = foldl (\<lambda>d p. dict_append d (fst p) (snd p)) d0 kvs"

text \<open>
  What one emitted record owes to its group: the code, the post-transaction count, the
  price and the percentage.
\<close>

definition emitted :: "filing \<Rightarrow> trade \<Rightarrow> string \<times> transaction list \<Rightarrow> bool" where
  "emitted d r g \<longleftrightarrow>
     transaction_type r = fst g \<and> list_all complete_transaction (snd g) \<and>
     total_shares_after_transaction r =
       last_after (direct_partition (snd g)) + indirect_contribution (snd g)
       + holdings_contribution d \<and>
     first_share_price d = Inr (share_price r) \<and>
     percentage (total_shares r) (total_shares_after_transaction r) \<noteq> Inl ZeroDivisionError \<and>
     change_in_shares_percentage r =
       spec_change_in_shares_percentage (total_shares r) (total_shares_after_transaction r)"

section \<open>Sample documents\<close>

definition sample_transaction ::
  "string \<Rightarrow> rat \<Rightarrow> rat option \<Rightarrow> string \<Rightarrow> string option \<Rightarrow> rat option \<Rightarrow> transaction" where
  "sample_transaction k n p own nature aft =
     \<lparr>coding = Some \<lparr>code = Some k\<rparr>,
      amounts = Some \<lparr>shares = Some n, pricePerShare = p\<rparr>,
      ownershipNature =
        Some \<lparr>directOrIndirectOwnership = Some own, natureOfOwnership = nature\<rparr>,
      postTransactionAmounts = Some \<lparr>sharesOwnedFollowingTransaction = aft\<rparr>\<rparr>"

definition sample_filing :: "transaction list \<Rightarrow> holding list option \<Rightarrow> filing" where
  "sample_filing ts hs =
     \<lparr>issuer = Some \<lparr>tradingSymbol = Some ''TSLA'', issuer_name = Some ''Tesla, Inc.'',
                     issuer_cik = Some ''1318605''\<rparr>,
      reportingOwner = Some \<lparr>owner_name = Some ''Musk Elon'',
        relationship = Some \<lparr>isOfficer = Some True, officerTitle = Some ''CEO''\<rparr>\<rparr>,
      nonDerivativeTable = Some \<lparr>transactions = Some ts, holdings = hs\<rparr>,
      doc_id = Some ''f1'', doc_accessionNo = Some ''0000899243-20-004252'',
      doc_periodOfReport = Some ''2020-02-14'', filedAt = Some ''2020-02-19'',
      doc_link = None\<rparr>"

definition sample_constants :: constants where
  "sample_constants =
     \<lparr>sectors_with_ticker = [(''Consumer Cyclical'', [''TSLA''])],
      market_cap_with_ticker = [(''Large Cap'', [''TSLA''])],
      officer_titles = [''Chief Executive Officer'']\<rparr>"

text \<open>A purchase and a sale in one filing, both held directly.\<close>

definition sample_purchase_and_sale :: filing where
  "sample_purchase_and_sale =
     sample_filing
       [sample_transaction ''P'' 10 (Some 1) ''D'' None (Some 100),
        sample_transaction ''S'' 5 (Some 2) ''D'' None (Some 95)] None"

text \<open>
  The purchase of the specification's example: 13037 shares at 767, leaving 34098597.
\<close>

definition sample_purchase :: filing where
  "sample_purchase =
     sample_filing [sample_transaction ''P'' 13037 (Some 767) ''D'' None (Some 34098597)] None"

text \<open>
  A purchase in five rows, direct and through a trust and a spouse, with a gift between
  them and two holdings rows, one without a count.
\<close>

definition sample_ownership :: filing where
  "sample_ownership =
     sample_filing
       [sample_transaction ''P'' 100 (Some 10) ''D'' None (Some 1000),
        sample_transaction ''P'' 50 (Some 10) ''I'' (Some ''By Trust'') (Some 500),
        sample_transaction ''G'' 5 None ''D'' None (Some 995),
        sample_transaction ''P'' 20 (Some 10) ''I'' (Some ''By Spouse'') (Some 200),
        sample_transaction ''P'' 30 (Some 10) ''I'' (Some ''By Trust'') (Some 530),
        sample_transaction ''P'' 10 (Some 10) ''D'' None (Some 1010)]
       (Some [\<lparr>holding_postTransactionAmounts =
                  Some \<lparr>sharesOwnedFollowingTransaction = Some 70\<rparr>\<rparr>,
              \<lparr>holding_postTransactionAmounts = None\<rparr>])"

text \<open>A sale whose second row has an empty ownership marker.\<close>

definition sample_marker :: filing where
  "sample_marker =
     sample_filing
       [sample_transaction ''S'' 100 (Some 10) ''D'' None (Some 1000),
        sample_transaction ''S'' 100 (Some 10) [] None (Some 900),
        sample_transaction ''S'' 50 (Some 10) ''I'' (Some ''By Trust'') (Some 500)] None"

text \<open>A gift and a grant, the second row with nothing but its coding.\<close>

definition sample_gifts :: filing where
  "sample_gifts =
     sample_filing
       [sample_transaction ''G'' 5 None ''D'' None (Some 995),
        \<lparr>coding = Some \<lparr>code = Some ''A''\<rparr>, amounts = None, ownershipNature = None,
          postTransactionAmounts = None\<rparr>] None"




text \<open>The records of a filing, when the extractor returns.\<close>

definition results_of :: "constants \<Rightarrow> filing \<Rightarrow> trade list" where
  "results_of c d =
     (case extract_insider_trades_info_single c d of Inl e \<Rightarrow> [] | Inr rs \<Rightarrow> rs)"

section \<open>The notions the properties of the stream client are stated with\<close>

text \<open>The Filing Classifier: the test \<open>on_filings\<close> makes before it fetches.\<close>

definition is_candidate :: "filing_event \<Rightarrow> bool" where
  "is_candidate f \<longleftrightarrow>
     get_default (formType f) [] \<in> set [''4'', ''4/A''] \<and> get_default (ev_accessionNo f) [] \<noteq> []"

text \<open>
  Time passes in \<open>asyncio.sleep\<close> only. \<open>elapsed\<close> is the time a trace takes,
  \<open>recv_times now\<close> the clock at each message received, for a trace that starts at \<open>now\<close>.
\<close>

fun elapsed :: "event list \<Rightarrow> nat" where
  "elapsed [] = 0"
| "elapsed (Sleep n # es) = n + elapsed es"
| "elapsed (e # es) = elapsed es"

fun recv_times :: "nat \<Rightarrow> event list \<Rightarrow> nat list" where
  "recv_times now [] = []"
| "recv_times now (Recv # es) = now # recv_times now es"
| "recv_times now (Sleep n # es) = recv_times (now + n) es"
| "recv_times now (e # es) = recv_times now es"

text \<open>Every \<open>Connect\<close> of a trace comes right after a \<open>Sleep 5\<close>, given the event before.\<close>

fun backoff_ok :: "event \<Rightarrow> event list \<Rightarrow> bool" where
  "backoff_ok prev [] = True"
| "backoff_ok prev (e # es) = ((e = Connect \<longrightarrow> prev = Sleep 5) \<and> backoff_ok e es)"

fun is_connect_failure :: "attempt \<Rightarrow> bool" where
  "is_connect_failure (ConnectFails pa) = True"
| "is_connect_failure (Session ms pa) = False"

text \<open>An attempt after which \<open>await ping_task\<close> does not raise \<open>CancelledError\<close>.\<close>

fun settles :: "attempt \<Rightarrow> bool" where
  "settles (ConnectFails pa) = True"
| "settles (Session ms pa) = (pa = PingSettled)"

section \<open>A sample stream\<close>

definition sample_event :: filing_event where
  "sample_event =
     \<lparr>formType = Some ''4'', ev_ticker = Some ''TSLA'', companyName = Some ''Tesla, Inc.'',
      ev_accessionNo = Some ''0000899243-20-004252'',
      linkToFilingDetails = Some ''https://www.sec.gov/Archives/edgar/data/1318605/form4.xml''\<rparr>"

definition sample_provider :: detail_provider where
  "sample_provider acc_no = Inr \<lparr>total_value = 1, api_transactions = [sample_purchase]\<rparr>"

section \<open>Properties of the extractor\<close>

lemma and_then_Inr_iff: "and_then m f = Inr y \<longleftrightarrow> (\<exists>x. m = Inr x \<and> f x = Inr y)"
  by (cases m) (simp_all add: and_then_def)

lemma and_then_Inr [simp]: "and_then (Inr x) f = f x"
  by (simp add: and_then_def)

lemma and_then_Inl [simp]: "and_then (Inl e) f = Inl e"
  by (simp add: and_then_def)

lemma subscript_Inr_iff: "subscript k v = Inr x \<longleftrightarrow> v = Some x"
  by (cases v) (simp_all add: subscript_def)

lemma subscript_Some [simp]: "subscript k (Some x) = Inr x"
  by (simp add: subscript_def)

lemma subscript_None [simp]: "subscript k None = Inl (KeyError k)"
  by (simp add: subscript_def)

lemma dict_append_keys:
  "map fst (dict_append d k v) = (if k \<in> fst ` set d then map fst d else map fst d @ [k])"
  by (induction d k v rule: dict_append.induct) auto

lemma dict_append_distinct:
  "distinct (map fst d) \<Longrightarrow> distinct (map fst (dict_append d k v))"
  by (simp add: dict_append_keys)

lemma dict_append_map_of:
  "map_of (dict_append d k v) =
     (map_of d)(k \<mapsto> (case map_of d k of None \<Rightarrow> [v] | Some vs \<Rightarrow> vs @ [v]))"
  by (induction d k v rule: dict_append.induct) (auto simp: fun_eq_iff)

lemma dict_append_key_set: "fst ` set (dict_append d k v) = insert k (fst ` set d)"
proof -
  have "set (map fst (dict_append d k v)) = insert k (set (map fst d))"
    unfolding dict_append_keys by auto
  then show ?thesis by simp
qed

lemma dict_of_keys: "fst ` set (dict_of d0 kvs) = fst ` set d0 \<union> fst ` set kvs"
  unfolding dict_of_def
  by (induction kvs arbitrary: d0) (simp_all add: dict_append_key_set)

lemma dict_of_distinct: "distinct (map fst d0) \<Longrightarrow> distinct (map fst (dict_of d0 kvs))"
  unfolding dict_of_def
  by (induction kvs arbitrary: d0) (auto simp: dict_append_distinct)

lemma dict_of_map_of:
  "map_of (dict_of d0 kvs) k =
     (if map snd (filter (\<lambda>p. fst p = k) kvs) = [] then map_of d0 k
      else Some (get_default (map_of d0 k) [] @ map snd (filter (\<lambda>p. fst p = k) kvs)))"
  unfolding dict_of_def
  by (induction kvs arbitrary: d0)
     (auto simp: dict_append_map_of get_default_def split: option.splits)

lemma dict_of_entries:
  assumes "(k, vs) \<in> set (dict_of [] kvs)"
  shows "vs = map snd (filter (\<lambda>p. fst p = k) kvs) \<and> vs \<noteq> []"
proof -
  have "distinct (map fst (dict_of [] kvs))" by (simp add: dict_of_distinct)
  with assms have "map_of (dict_of [] kvs) k = Some vs" by simp
  then show ?thesis
    by (auto simp: dict_of_map_of get_default_def split: if_splits)
qed


subsection \<open>The loop over one group's transactions\<close>

lemma add_transaction_Inr:
  "add_transaction t s = Inr s' \<longleftrightarrow>
     complete_transaction t \<and>
     s' = (if tx_ownership t = Some ''I''
           then s\<lparr>gs_total_shares := gs_total_shares s + tx_shares t,
                  gs_total_amount_spent := gs_total_amount_spent s + tx_shares t * tx_price t,
                  gs_indirect := dict_append (gs_indirect s) (tx_nature t) (tx_snapshot t)\<rparr>
           else s\<lparr>gs_total_shares := gs_total_shares s + tx_shares t,
                  gs_total_amount_spent := gs_total_amount_spent s + tx_shares t * tx_price t,
                  gs_D := gs_D s @ [tx_snapshot t]\<rparr>)"
proof (cases "complete_transaction t")
  case False
  then have "\<exists>e. add_transaction t s = Inl e"
    by (cases "amounts t"; cases "ownershipNature t"; cases "postTransactionAmounts t")
       (auto simp: add_transaction_def complete_transaction_def tx_ownership_def
          subscript_def and_then_def split: option.splits)
  with False show ?thesis by auto
next
  case True
  then obtain a n own m p where f: "amounts t = Some a" "shares a = Some n"
    "ownershipNature t = Some own" "directOrIndirectOwnership own = Some m"
    "postTransactionAmounts t = Some p"
    by (cases "amounts t"; cases "ownershipNature t"; cases "postTransactionAmounts t")
       (auto simp: complete_transaction_def tx_ownership_def)
  have "add_transaction t s =
     Inr (if m = ''I''
          then s\<lparr>gs_total_shares := gs_total_shares s + n,
                 gs_total_amount_spent := gs_total_amount_spent s + n * get_default (pricePerShare a) 0,
                 gs_indirect := dict_append (gs_indirect s) (natureOfOwnership own) p\<rparr>
          else s\<lparr>gs_total_shares := gs_total_shares s + n,
                 gs_total_amount_spent := gs_total_amount_spent s + n * get_default (pricePerShare a) 0,
                 gs_D := gs_D s @ [p]\<rparr>)"
    by (simp add: add_transaction_def f Let_def)
  with True f show ?thesis
    by (auto simp: tx_ownership_def tx_shares_def tx_price_def tx_nature_def tx_snapshot_def
          get_default_def)
qed


lemma for_each_add_transaction:
  "for_each add_transaction txs s = Inr s' \<Longrightarrow>
     list_all complete_transaction txs \<and>
     gs_total_shares s' = gs_total_shares s + sum_list (map tx_shares txs) \<and>
     gs_total_amount_spent s' =
       gs_total_amount_spent s + sum_list (map (\<lambda>t. tx_shares t * tx_price t) txs) \<and>
     gs_D s' = gs_D s @ map tx_snapshot (direct_partition txs) \<and>
     gs_indirect s' =
       dict_of (gs_indirect s)
         (map (\<lambda>t. (tx_nature t, tx_snapshot t))
              (filter (\<lambda>t. tx_ownership t = Some ''I'') txs))"
proof (induction txs arbitrary: s)
  case Nil
  then show ?case by (simp add: direct_partition_def dict_of_def)
next
  case (Cons t txs)
  from Cons.prems obtain s1 where
    s1: "add_transaction t s = Inr s1" and rest: "for_each add_transaction txs s1 = Inr s'"
    by (auto simp: and_then_Inr_iff)
  note ih = Cons.IH [OF rest]
  from s1 have c: "complete_transaction t" by (simp add: add_transaction_Inr)
  show ?case
  proof (cases "tx_ownership t = Some ''I''")
    case True
    with s1 have "s1 = s\<lparr>gs_total_shares := gs_total_shares s + tx_shares t,
        gs_total_amount_spent := gs_total_amount_spent s + tx_shares t * tx_price t,
        gs_indirect := dict_append (gs_indirect s) (tx_nature t) (tx_snapshot t)\<rparr>"
      by (simp add: add_transaction_Inr)
    with ih c True show ?thesis
      by (simp add: direct_partition_def dict_of_def)
  next
    case False
    with s1 have "s1 = s\<lparr>gs_total_shares := gs_total_shares s + tx_shares t,
        gs_total_amount_spent := gs_total_amount_spent s + tx_shares t * tx_price t,
        gs_D := gs_D s @ [tx_snapshot t]\<rparr>"
      by (simp add: add_transaction_Inr)
    with ih c False show ?thesis
      by (simp add: direct_partition_def dict_of_def)
  qed
qed


lemma extract_last_item_snapshots: "extract_last_item (map tx_snapshot ts) = last_after ts"
  by (cases "postTransactionAmounts (last ts)")
     (simp_all add: extract_last_item_def last_after_def last_map tx_snapshot_def tx_after_def
        get_default_def)

lemma indirect_sum:
  "sum_list (map (\<lambda>(key, nested_group). extract_last_item nested_group)
       (dict_of [] (map (\<lambda>t. (tx_nature t, tx_snapshot t)) ind))) =
   sum_list (map (\<lambda>n. last_after (filter (\<lambda>t. tx_nature t = n) ind))
       (remdups (map tx_nature ind)))"
proof -
  let ?kvs = "map (\<lambda>t. (tx_nature t, tx_snapshot t)) ind"
  let ?d = "dict_of [] ?kvs"
  let ?g = "\<lambda>n. last_after (filter (\<lambda>t. tx_nature t = n) ind)"
  have entry: "extract_last_item vs = ?g k" if "(k, vs) \<in> set ?d" for k vs
  proof -
    from dict_of_entries [OF that]
    have "vs = map tx_snapshot (filter (\<lambda>t. tx_nature t = k) ind)"
      by (simp add: filter_map comp_def)
    then show ?thesis by (simp add: extract_last_item_snapshots)
  qed
  have eq: "map (\<lambda>(key, nested_group). extract_last_item nested_group) ?d = map ?g (map fst ?d)"
    unfolding map_map by (rule map_cong [OF refl]) (use entry in \<open>auto simp del: extract_last_item_snapshots\<close>)
  have dist: "distinct (map fst ?d)" by (simp add: dict_of_distinct)
  have keys: "set (map fst ?d) = set (remdups (map tx_nature ind))"
    using dict_of_keys [of "[]" ?kvs] by (simp add: image_image)
  have "sum_list (map (\<lambda>(key, nested_group). extract_last_item nested_group) ?d) =
        sum_list (map ?g (map fst ?d))"
    by (simp only: eq)
  also have "\<dots> = sum ?g (set (map fst ?d))"
    by (rule sum_list_distinct_conv_sum_set [OF dist])
  also have "\<dots> = sum ?g (set (remdups (map tx_nature ind)))"
    by (simp only: keys)
  also have "\<dots> = sum_list (map ?g (remdups (map tx_nature ind)))"
    by (rule sum_list_distinct_conv_sum_set [symmetric]) simp
  finally show ?thesis .
qed


subsection \<open>Holdings, price and percentage\<close>

lemma holding_shares_sum:
  "sum_list (map holding_shares hs) =
   sum_list (List.map_filter
     (\<lambda>h. Option.bind (holding_postTransactionAmounts h) sharesOwnedFollowingTransaction) hs)"
  by (induction hs) (auto simp: holding_shares_def List.map_filter_simps split: option.splits)

lemma holdings_total_Inr:
  "holdings_total d = Inr h \<longleftrightarrow> nonDerivativeTable d \<noteq> None \<and> h = holdings_contribution d"
  by (cases "nonDerivativeTable d")
     (auto simp: holdings_total_def holdings_contribution_def doc_holdings_def get_default_def
        holding_shares_sum List.map_filter_simps split: option.splits)

lemma percentage_eq: "percentage n m = Inr (if m \<noteq> 0 then n / m * 100 else 0)"
  by (simp add: percentage_def py_truediv_def)

lemma round4_zero: "round4 0 = 0"
  by (simp add: round4_def round_half_even_def)

lemma round4_percentage:
  "percentage n m = Inr x \<Longrightarrow> round4 x = spec_change_in_shares_percentage n m"
  by (auto simp: percentage_eq spec_change_in_shares_percentage_def round4_zero)

lemma first_share_price_Inr:
  assumes "first_share_price d = Inr p"
  shows "doc_transactions d \<noteq> [] \<and> p = tx_price (hd (doc_transactions d))"
proof -
  from assms obtain tbl ts t a where f: "nonDerivativeTable d = Some tbl"
    "transactions tbl = Some ts" "(case ts of [] \<Rightarrow> Inl IndexError | t # _ \<Rightarrow> Inr t) = Inr t"
    "amounts t = Some a" "p = get_default (pricePerShare a) 0"
    unfolding first_share_price_def and_then_Inr_iff subscript_Inr_iff by auto
  from f(3) obtain ts' where "ts = t # ts'" by (cases ts) auto
  with f show ?thesis
    by (simp add: doc_transactions_def tx_price_def get_default_def)
qed



subsection \<open>One group, and the loop over the groups\<close>

lemma process_group_other:
  "k \<noteq> ''P'' \<Longrightarrow> k \<noteq> ''S'' \<Longrightarrow> process_group c d tick ceo company (k, txs) st = Inr st"
  by (simp add: process_group_def)

lemma process_group_qualifying:
  assumes r: "process_group c d tick ceo company (k, txs) st = Inr st'"
    and k: "k = ''P'' \<or> k = ''S''"
  shows "\<exists>r. es_results st' = es_results st @ [r] \<and> emitted d r (k, txs)"
proof -
  let ?g0 = "\<lparr>gs_total_shares = es_total_shares st,
      gs_total_amount_spent = es_total_amount_spent st, gs_D = [], gs_indirect = []\<rparr>"
  from k have kq: "k \<in> set [''P'', ''S'']" by auto
  from r kq obtain g price held change r where
    g: "for_each add_transaction txs ?g0 = Inr g" and
    price: "first_share_price d = Inr price" and
    held: "holdings_total d = Inr held" and
    change: "percentage (gs_total_shares g)
       (sum_list (extract_last_item (gs_D g) #
          map (\<lambda>(key, nested_group). extract_last_item nested_group) (gs_indirect g)) + held)
       = Inr change" and
    res: "es_results st' = es_results st @ [r]" and
    r1: "transaction_type r = k" and r2: "share_price r = price" and
    r3: "total_shares r = gs_total_shares g" and
    r4: "total_shares_after_transaction r =
       sum_list (extract_last_item (gs_D g) #
          map (\<lambda>(key, nested_group). extract_last_item nested_group) (gs_indirect g)) + held" and
    r5: "change_in_shares_percentage r = round4 change"
    unfolding process_group_def prod.case if_P [OF kq] and_then_Inr_iff Let_def
    by fastforce
  note loop = for_each_add_transaction [OF g]
  from loop have d: "extract_last_item (gs_D g) = last_after (direct_partition txs)"
    by (simp add: extract_last_item_snapshots)
  from loop have i: "sum_list (map (\<lambda>(key, nested_group). extract_last_item nested_group)
      (gs_indirect g)) = indirect_contribution txs"
    by (simp add: indirect_sum indirect_contribution_def Let_def)
  from held have h: "held = holdings_contribution d" by (simp add: holdings_total_Inr)
  have after: "total_shares_after_transaction r =
      last_after (direct_partition txs) + indirect_contribution txs + holdings_contribution d"
    by (simp add: r4 d i h)
  have pct: "percentage (total_shares r) (total_shares_after_transaction r) = Inr change"
    using change by (simp add: r3 r4)
  have "emitted d r (k, txs)"
    unfolding emitted_def fst_conv snd_conv
    using loop r1 after price r2 pct r5 round4_percentage [OF pct] by simp
  with res show ?thesis by blast
qed

lemma for_each_process_group:
  "for_each (process_group c d tick ceo company) groups st = Inr st' \<Longrightarrow>
     \<exists>new. es_results st' = es_results st @ new \<and>
       list_all2 (emitted d) new (filter (\<lambda>g. fst g = ''P'' \<or> fst g = ''S'') groups)"
proof (induction groups arbitrary: st)
  case Nil
  then show ?case by simp
next
  case (Cons g groups)
  obtain k txs where g: "g = (k, txs)" by (cases g)
  from Cons.prems obtain st1 where
    one: "process_group c d tick ceo company (k, txs) st = Inr st1" and
    rest: "for_each (process_group c d tick ceo company) groups st1 = Inr st'"
    by (auto simp: and_then_Inr_iff g)
  from Cons.IH [OF rest] obtain new where
    new: "es_results st' = es_results st1 @ new"
      "list_all2 (emitted d) new (filter (\<lambda>g. fst g = ''P'' \<or> fst g = ''S'') groups)"
    by blast
  show ?case
  proof (cases "k = ''P'' \<or> k = ''S''")
    case True
    from process_group_qualifying [OF one True] obtain r where
      "es_results st1 = es_results st @ [r]" "emitted d r (k, txs)" by blast
    with new True g have "es_results st' = es_results st @ (r # new) \<and>
       list_all2 (emitted d) (r # new) (filter (\<lambda>g. fst g = ''P'' \<or> fst g = ''S'') (g # groups))"
      by simp
    then show ?thesis by blast
  next
    case False
    with one have "st1 = st" by (simp add: process_group_other)
    with new False g show ?thesis by simp
  qed
qed


subsection \<open>Grouping by coding\<close>

lemma coding_code_Inr: "coding_code t = Inr k \<longleftrightarrow> tx_code t = Some k"
  by (cases "coding t")
     (auto simp: coding_code_def tx_code_def and_then_Inr_iff subscript_Inr_iff)

lemma group_loop:
  "for_each (\<lambda>t combined. and_then (coding_code t) (\<lambda>k. Inr (dict_append combined k t))) ts d0
     = Inr dct \<Longrightarrow>
   list_all (\<lambda>t. tx_code t \<noteq> None) ts \<and> dct = dict_of d0 (map (\<lambda>t. (the (tx_code t), t)) ts)"
proof (induction ts arbitrary: d0)
  case Nil
  then show ?case by (simp add: dict_of_def)
next
  case (Cons t ts)
  from Cons.prems obtain k where k: "tx_code t = Some k" and
    rest: "for_each (\<lambda>t combined. and_then (coding_code t) (\<lambda>k. Inr (dict_append combined k t)))
             ts (dict_append d0 k t) = Inr dct"
    by (auto simp: and_then_Inr_iff coding_code_Inr)
  from Cons.IH [OF rest] k show ?case by (simp add: dict_of_def)
qed

lemma group_loop_complete:
  "list_all (\<lambda>t. tx_code t \<noteq> None) ts \<Longrightarrow>
   \<exists>dct. for_each (\<lambda>t combined. and_then (coding_code t) (\<lambda>k. Inr (dict_append combined k t)))
            ts d0 = Inr dct"
proof (induction ts arbitrary: d0)
  case Nil
  then show ?case by simp
next
  case (Cons t ts)
  then obtain k where "coding_code t = Inr k" by (auto simp: coding_code_Inr)
  with Cons show ?case by simp
qed

lemma group_transaction_by_coding_Inr:
  assumes "group_transaction_by_coding ts = Inr groups"
  shows "list_all (\<lambda>t. tx_code t \<noteq> None) ts"
    and "distinct (map fst groups)"
    and "fst ` set groups = {k. \<exists>t\<in>set ts. tx_code t = Some k}"
    and "\<And>k txs. (k, txs) \<in> set groups \<Longrightarrow> txs = filter (\<lambda>t. tx_code t = Some k) ts"
proof -
  let ?kvs = "map (\<lambda>t. (the (tx_code t), t)) ts"
  from group_loop [OF assms [unfolded group_transaction_by_coding_def]]
  have all: "list_all (\<lambda>t. tx_code t \<noteq> None) ts" and groups: "groups = dict_of [] ?kvs"
    by simp_all
  show "list_all (\<lambda>t. tx_code t \<noteq> None) ts" by (rule all)
  show "distinct (map fst groups)" by (simp add: groups dict_of_distinct)
  have "fst ` set groups = (\<lambda>t. the (tx_code t)) ` set ts"
    by (simp add: groups dict_of_keys image_image)
  also have "\<dots> = {k. \<exists>t\<in>set ts. tx_code t = Some k}"
    using all by (force simp: list_all_iff)
  finally show "fst ` set groups = {k. \<exists>t\<in>set ts. tx_code t = Some k}" .
  fix k txs
  assume "(k, txs) \<in> set groups"
  then have "txs = map snd (filter (\<lambda>p. fst p = k) ?kvs)"
    using dict_of_entries [of k txs ?kvs] by (simp add: groups)
  also have "\<dots> = filter (\<lambda>t. the (tx_code t) = k) ts"
    by (simp add: filter_map comp_def)
  also have "\<dots> = filter (\<lambda>t. tx_code t = Some k) ts"
    using all by (intro filter_cong refl) (auto simp: list_all_iff)
  finally show "txs = filter (\<lambda>t. tx_code t = Some k) ts" .
qed


subsection \<open>The extractor\<close>

lemma extract_Inr:
  assumes "extract_insider_trades_info_single c d = Inr rs"
  obtains groups where "header_present d"
    and "group_transaction_by_coding (doc_transactions d) = Inr groups"
    and "list_all2 (emitted d) rs (filter (\<lambda>g. fst g = ''P'' \<or> fst g = ''S'') groups)"
proof -
  from assms obtain iss tick own ceo company tbl ts groups st where
    f: "issuer d = Some iss" "tradingSymbol iss = Some tick" "reportingOwner d = Some own"
      "owner_name own = Some ceo" "issuer_name iss = Some company"
      "nonDerivativeTable d = Some tbl" "transactions tbl = Some ts" and
    groups: "group_transaction_by_coding ts = Inr groups" and
    loop: "for_each (process_group c d tick ceo company) groups
       \<lparr>es_total_shares = 0, es_total_amount_spent = 0, es_results = []\<rparr> = Inr st" and
    rs: "rs = es_results st"
    unfolding extract_insider_trades_info_single_def and_then_Inr_iff subscript_Inr_iff
    by auto
  from f have "header_present d" and ts: "doc_transactions d = ts"
    by (simp_all add: header_present_def doc_transactions_def get_default_def)
  moreover from for_each_process_group [OF loop] rs
  have "list_all2 (emitted d) rs (filter (\<lambda>g. fst g = ''P'' \<or> fst g = ''S'') groups)"
    by simp
  ultimately show ?thesis using groups that by simp
qed

lemma emitted_types: "list_all2 (emitted d) rs qs \<Longrightarrow> map transaction_type rs = map fst qs"
  by (induction rs qs rule: list_all2_induct) (simp_all add: emitted_def)

lemma list_all2_in_set: "list_all2 P xs ys \<Longrightarrow> x \<in> set xs \<Longrightarrow> \<exists>y\<in>set ys. P x y"
  by (induction xs ys rule: list_all2_induct) auto

lemma extract_records:
  assumes "extract_insider_trades_info_single c d = Inr rs"
  shows "distinct (map transaction_type rs)"
    and "set (map transaction_type rs) =
           {k. (k = ''P'' \<or> k = ''S'') \<and> group_of k d \<noteq> []}"
    and "\<And>r. r \<in> set rs \<Longrightarrow> emitted d r (transaction_type r, group_of (transaction_type r) d)"
proof -
  from assms obtain groups where
    groups: "group_transaction_by_coding (doc_transactions d) = Inr groups" and
    em: "list_all2 (emitted d) rs (filter (\<lambda>g. fst g = ''P'' \<or> fst g = ''S'') groups)"
    by (rule extract_Inr)
  let ?qs = "filter (\<lambda>g. fst g = ''P'' \<or> fst g = ''S'') groups"
  note g = group_transaction_by_coding_Inr [OF groups]
  from em have types: "map transaction_type rs = map fst ?qs"
    by (rule emitted_types)
  show "distinct (map transaction_type rs)"
    unfolding types using g(2) by (simp add: distinct_map_filter)
  have "set (map transaction_type rs) = {k \<in> fst ` set groups. k = ''P'' \<or> k = ''S''}"
    unfolding types by force
  also have "\<dots> = {k. (k = ''P'' \<or> k = ''S'') \<and> group_of k d \<noteq> []}"
    unfolding g(3) by (auto simp: group_of_def filter_empty_conv)
  finally show "set (map transaction_type rs) =
      {k. (k = ''P'' \<or> k = ''S'') \<and> group_of k d \<noteq> []}" .
  fix r
  assume "r \<in> set rs"
  from list_all2_in_set [OF em this] obtain q where q: "q \<in> set ?qs" "emitted d r q" ..
  obtain k txs where kt: "q = (k, txs)" by (cases q)
  with q have "txs = group_of k d" "transaction_type r = k"
    using g(4) [of k txs] by (simp_all add: group_of_def emitted_def)
  with q kt show "emitted d r (transaction_type r, group_of (transaction_type r) d)"
    by simp
qed

lemma for_each_process_group_other:
  "\<forall>g\<in>set groups. fst g \<noteq> ''P'' \<and> fst g \<noteq> ''S'' \<Longrightarrow>
   for_each (process_group c d tick ceo company) groups st = Inr st"
proof (induction groups)
  case Nil
  then show ?case by simp
next
  case (Cons g groups)
  obtain k txs where "g = (k, txs)" by (cases g)
  with Cons show ?case by (simp add: process_group_other)
qed





subsection \<open>The exceptions of the extractor\<close>















lemma direct_partition_last:
  assumes "tx_ownership t \<noteq> Some ''I''" and "\<forall>u\<in>set post. tx_ownership u = Some ''I''"
  shows "direct_partition (pre @ t # post) = direct_partition pre @ [t]"
proof -
  from assms(2) have "filter (\<lambda>t. tx_ownership t \<noteq> Some ''I'') post = []"
    by (simp add: filter_empty_conv)
  with assms(1) show ?thesis by (simp add: direct_partition_def)
qed

text \<open>
  C1. The totals \<open>total_shares\<close> and \<open>total_amount_spent\<close> are set to 0 once, before the
  loop over the groups, so the record of a later group carries the sums of the groups
  before it: for a purchase of 10 shares at 1 and a sale of 5 shares at 2 the sale's
  record reports 15 shares and 20 spent, where the sale's own transactions sum to 5
  and 10.
\<close>

theorem totals_carried_into_next_group:
  "map_sum id (map (\<lambda>r. (transaction_type r, total_shares r, total_amount_spent r)))
     (extract_insider_trades_info_single sample_constants sample_purchase_and_sale) =
     Inr [(''P'', 10, 10), (''S'', 15, 20)] \<and>
   sum_list (map tx_shares (group_of ''S'' sample_purchase_and_sale)) = 5 \<and>
   sum_list (map (\<lambda>t. tx_shares t * tx_price t) (group_of ''S'' sample_purchase_and_sale)) = 10"
  by code_simp

text \<open>
  C5. Every record the extractor emits carries as \<open>share_price\<close> the \<open>pricePerShare\<close> of
  the first transaction of the document's table, 0 if that transaction has none,
  whatever group the record is for.
\<close>

theorem share_price_of_first_transaction:
  assumes "extract_insider_trades_info_single c d = Inr rs" and "r \<in> set rs"
  shows "doc_transactions d \<noteq> [] \<and> share_price r = tx_price (hd (doc_transactions d))"
proof -
  from extract_records(3) [OF assms]
  have "first_share_price d = Inr (share_price r)" by (simp add: emitted_def)
  then show ?thesis by (rule first_share_price_Inr)
qed

theorem share_price_of_first_transaction_witness:
  "extract_insider_trades_info_single sample_constants sample_purchase_and_sale =
     Inr (results_of sample_constants sample_purchase_and_sale) \<and>
   results_of sample_constants sample_purchase_and_sale ! 1 \<in>
     set (results_of sample_constants sample_purchase_and_sale) \<and>
   transaction_type (results_of sample_constants sample_purchase_and_sale ! 1) = ''S'' \<and>
   share_price (results_of sample_constants sample_purchase_and_sale ! 1) =
     tx_price (hd (doc_transactions sample_purchase_and_sale)) \<and>
   tx_price (hd (doc_transactions sample_purchase_and_sale)) = 1"
proof -
  have e: "extract_insider_trades_info_single sample_constants sample_purchase_and_sale =
     Inr (results_of sample_constants sample_purchase_and_sale)"
    by code_simp
  have m: "results_of sample_constants sample_purchase_and_sale ! 1 \<in>
     set (results_of sample_constants sample_purchase_and_sale)"
    by code_simp
  have t: "transaction_type (results_of sample_constants sample_purchase_and_sale ! 1) = ''S''"
    by code_simp
  have p: "tx_price (hd (doc_transactions sample_purchase_and_sale)) = 1"
    by code_simp
  from share_price_of_first_transaction [OF e m] e m t p show ?thesis by simp
qed


text \<open>
  C7. A document whose header is present and whose transactions all carry a coding code
  other than \<open>P\<close> and \<open>S\<close> gives the empty list of records, and no exception: the groups
  of other codes are passed over without reading their transactions.
\<close>

theorem no_purchase_or_sale_no_records:
  assumes "header_present d"
    and "\<forall>t\<in>set (doc_transactions d). \<exists>k. tx_code t = Some k \<and> k \<noteq> ''P'' \<and> k \<noteq> ''S''"
  shows "extract_insider_trades_info_single c d = Inr []"
proof -
  from assms(1) obtain iss tick own ceo company tbl ts where
    f: "issuer d = Some iss" "tradingSymbol iss = Some tick" "reportingOwner d = Some own"
      "owner_name own = Some ceo" "issuer_name iss = Some company"
      "nonDerivativeTable d = Some tbl" "transactions tbl = Some ts"
    by (cases "issuer d"; cases "reportingOwner d"; cases "nonDerivativeTable d")
       (auto simp: header_present_def)
  then have dts: "doc_transactions d = ts"
    by (simp add: doc_transactions_def get_default_def)
  with assms(2) have "list_all (\<lambda>t. tx_code t \<noteq> None) ts"
    by (auto simp: list_all_iff)
  then obtain groups where groups: "group_transaction_by_coding ts = Inr groups"
    unfolding group_transaction_by_coding_def using group_loop_complete by blast
  have "\<forall>g\<in>set groups. fst g \<noteq> ''P'' \<and> fst g \<noteq> ''S''"
  proof
    fix g assume "g \<in> set groups"
    then have "fst g \<in> {k. \<exists>t\<in>set ts. tx_code t = Some k}"
      using group_transaction_by_coding_Inr(3) [OF groups] by blast
    with assms(2) dts show "fst g \<noteq> ''P'' \<and> fst g \<noteq> ''S''" by auto
  qed
  then have "for_each (process_group c d tick ceo company) groups
       \<lparr>es_total_shares = 0, es_total_amount_spent = 0, es_results = []\<rparr> =
     Inr \<lparr>es_total_shares = 0, es_total_amount_spent = 0, es_results = []\<rparr>"
    by (rule for_each_process_group_other)
  with f groups show ?thesis
    by (simp add: extract_insider_trades_info_single_def)
qed

theorem no_purchase_or_sale_no_records_witness:
  "header_present sample_gifts \<and>
   map tx_code (doc_transactions sample_gifts) = [Some ''G'', Some ''A''] \<and>
   extract_insider_trades_info_single sample_constants sample_gifts = Inr []"
proof -
  have h: "header_present sample_gifts" by code_simp
  have k: "map tx_code (doc_transactions sample_gifts) = [Some ''G'', Some ''A'']"
    by code_simp
  have "\<forall>t\<in>set (doc_transactions sample_gifts).
      \<exists>k. tx_code t = Some k \<and> k \<noteq> ''P'' \<and> k \<noteq> ''S''"
  proof
    fix t assume "t \<in> set (doc_transactions sample_gifts)"
    then have "tx_code t \<in> set (map tx_code (doc_transactions sample_gifts))" by simp
    then show "\<exists>k. tx_code t = Some k \<and> k \<noteq> ''P'' \<and> k \<noteq> ''S''"
      unfolding k by auto
  qed
  from no_purchase_or_sale_no_records [OF h this] h k show ?thesis by simp
qed




text \<open>
  C4. For a purchase or sale group whose transactions are marked \<open>D\<close> or \<open>I\<close>, the extractor
  emits a record, and its \<open>total_shares_after_transaction\<close> is the count after the last
  direct transaction of the group (0 if there is none), plus for each distinct
  \<open>natureOfOwnership\<close> among the indirect ones the count after the last transaction of
  that nature, plus the count of every holdings row that carries one.
\<close>

theorem total_shares_after_transaction_spec:
  assumes "extract_insider_trades_info_single c d = Inr rs"
    and "k = ''P'' \<or> k = ''S''" and "group_of k d \<noteq> []"
    and "\<forall>t\<in>set (group_of k d). tx_ownership t = Some ''D'' \<or> tx_ownership t = Some ''I''"
  shows "(\<exists>r\<in>set rs. transaction_type r = k) \<and>
         (\<forall>r\<in>set rs. transaction_type r = k \<longrightarrow>
            total_shares_after_transaction r = spec_total_shares_after d (group_of k d))"
proof
  from assms(2,3) have "k \<in> set (map transaction_type rs)"
    unfolding extract_records(2) [OF assms(1)] by simp
  then show "\<exists>r\<in>set rs. transaction_type r = k" by auto
next
  from assms(4) have "direct_partition (group_of k d) =
      filter (\<lambda>t. tx_ownership t = Some ''D'') (group_of k d)"
    unfolding direct_partition_def by (intro filter_cong refl) auto
  then have direct: "last_after (direct_partition (group_of k d)) =
      direct_contribution (group_of k d)"
    by (simp add: direct_contribution_def)
  show "\<forall>r\<in>set rs. transaction_type r = k \<longrightarrow>
      total_shares_after_transaction r = spec_total_shares_after d (group_of k d)"
  proof (intro ballI impI)
    fix r assume "r \<in> set rs" and k: "transaction_type r = k"
    from extract_records(3) [OF assms(1) this(1)]
    have "total_shares_after_transaction r =
        last_after (direct_partition (group_of k d)) + indirect_contribution (group_of k d)
        + holdings_contribution d"
      by (simp add: emitted_def k)
    then show "total_shares_after_transaction r = spec_total_shares_after d (group_of k d)"
      by (simp add: direct spec_total_shares_after_def)
  qed
qed

theorem total_shares_after_transaction_spec_witness:
  "extract_insider_trades_info_single sample_constants sample_ownership =
     Inr (results_of sample_constants sample_ownership) \<and>
   length (group_of ''P'' sample_ownership) = 5 \<and>
   map tx_ownership (group_of ''P'' sample_ownership) =
     [Some ''D'', Some ''I'', Some ''I'', Some ''I'', Some ''D''] \<and>
   hd (results_of sample_constants sample_ownership) \<in>
     set (results_of sample_constants sample_ownership) \<and>
   transaction_type (hd (results_of sample_constants sample_ownership)) = ''P'' \<and>
   total_shares_after_transaction (hd (results_of sample_constants sample_ownership)) =
     spec_total_shares_after sample_ownership (group_of ''P'' sample_ownership) \<and>
   spec_total_shares_after sample_ownership (group_of ''P'' sample_ownership) =
     1010 + (530 + 200) + 70"
proof -
  have e: "extract_insider_trades_info_single sample_constants sample_ownership =
     Inr (results_of sample_constants sample_ownership)" by code_simp
  have l: "length (group_of ''P'' sample_ownership) = 5" by code_simp
  have o: "map tx_ownership (group_of ''P'' sample_ownership) =
     [Some ''D'', Some ''I'', Some ''I'', Some ''I'', Some ''D'']" by code_simp
  have m: "hd (results_of sample_constants sample_ownership) \<in>
     set (results_of sample_constants sample_ownership)" by code_simp
  have t: "transaction_type (hd (results_of sample_constants sample_ownership)) = ''P''"
    by code_simp
  have v: "spec_total_shares_after sample_ownership (group_of ''P'' sample_ownership) =
     1010 + (530 + 200) + 70" by code_simp
  from l have ne: "group_of ''P'' sample_ownership \<noteq> []" by auto
  have mk: "\<forall>t\<in>set (group_of ''P'' sample_ownership).
      tx_ownership t = Some ''D'' \<or> tx_ownership t = Some ''I''"
  proof
    fix t assume "t \<in> set (group_of ''P'' sample_ownership)"
    then have "tx_ownership t \<in> set (map tx_ownership (group_of ''P'' sample_ownership))"
      by simp
    then show "tx_ownership t = Some ''D'' \<or> tx_ownership t = Some ''I''"
      unfolding o by auto
  qed
  from total_shares_after_transaction_spec [OF e _ ne mk, of ] m t
  have "total_shares_after_transaction (hd (results_of sample_constants sample_ownership)) =
     spec_total_shares_after sample_ownership (group_of ''P'' sample_ownership)"
    by blast
  with e l o m t v show ?thesis by simp
qed




text \<open>
  C10. In a purchase or sale group, a transaction whose ownership marker is anything
  but \<open>I\<close> (\<open>D\<close>, or an unexpected marker such as the empty string) has its
  \<open>postTransactionAmounts\<close> appended to the direct list \<open>'D'\<close>; when no later
  transaction of the group is of that kind, its count is the direct contribution to
  \<open>total_shares_after_transaction\<close>.
\<close>

theorem non_indirect_marker_is_direct:
  assumes "extract_insider_trades_info_single c d = Inr rs" and "r \<in> set rs"
    and "group_of (transaction_type r) d = pre @ t # post"
    and "tx_ownership t \<noteq> Some ''I''"
  shows "(\<forall>s g. for_each add_transaction (group_of (transaction_type r) d) s = Inr g \<longrightarrow>
            tx_snapshot t \<in> set (gs_D g)) \<and>
         ((\<forall>u\<in>set post. tx_ownership u = Some ''I'') \<longrightarrow>
            total_shares_after_transaction r =
              tx_after t + indirect_contribution (group_of (transaction_type r) d)
              + holdings_contribution d)"
proof
  from assms(3,4) have "t \<in> set (direct_partition (group_of (transaction_type r) d))"
    by (simp add: direct_partition_def)
  then show "\<forall>s g. for_each add_transaction (group_of (transaction_type r) d) s = Inr g \<longrightarrow>
      tx_snapshot t \<in> set (gs_D g)"
    using for_each_add_transaction by fastforce
next
  show "(\<forall>u\<in>set post. tx_ownership u = Some ''I'') \<longrightarrow>
      total_shares_after_transaction r =
        tx_after t + indirect_contribution (group_of (transaction_type r) d)
        + holdings_contribution d"
  proof
    assume "\<forall>u\<in>set post. tx_ownership u = Some ''I''"
    with assms(3,4) have "direct_partition (group_of (transaction_type r) d) =
        direct_partition pre @ [t]"
      by (simp add: direct_partition_last)
    then have "last_after (direct_partition (group_of (transaction_type r) d)) = tx_after t"
      by (simp add: last_after_def)
    with extract_records(3) [OF assms(1,2)]
    show "total_shares_after_transaction r =
        tx_after t + indirect_contribution (group_of (transaction_type r) d)
        + holdings_contribution d"
      by (simp add: emitted_def)
  qed
qed

theorem non_indirect_marker_is_direct_witness:
  "extract_insider_trades_info_single sample_constants sample_marker =
     Inr (results_of sample_constants sample_marker) \<and>
   hd (results_of sample_constants sample_marker) \<in>
     set (results_of sample_constants sample_marker) \<and>
   group_of (transaction_type (hd (results_of sample_constants sample_marker))) sample_marker =
     [sample_transaction ''S'' 100 (Some 10) ''D'' None (Some 1000)] @
     sample_transaction ''S'' 100 (Some 10) [] None (Some 900) #
     [sample_transaction ''S'' 50 (Some 10) ''I'' (Some ''By Trust'') (Some 500)] \<and>
   tx_ownership (sample_transaction ''S'' 100 (Some 10) [] None (Some 900)) = Some [] \<and>
   total_shares_after_transaction (hd (results_of sample_constants sample_marker)) =
     900 + 500 + 0"
proof -
  let ?r = "hd (results_of sample_constants sample_marker)"
  let ?t = "sample_transaction ''S'' 100 (Some 10) [] None (Some 900)"
  let ?u = "sample_transaction ''S'' 50 (Some 10) ''I'' (Some ''By Trust'') (Some 500)"
  have e: "extract_insider_trades_info_single sample_constants sample_marker =
     Inr (results_of sample_constants sample_marker)" by code_simp
  have m: "?r \<in> set (results_of sample_constants sample_marker)" by code_simp
  have g: "group_of (transaction_type ?r) sample_marker =
     [sample_transaction ''S'' 100 (Some 10) ''D'' None (Some 1000)] @ ?t # [?u]"
    by code_simp
  have o: "tx_ownership ?t = Some []" by code_simp
  then have n: "tx_ownership ?t \<noteq> Some ''I''" by simp
  have p: "\<forall>u\<in>set [?u]. tx_ownership u = Some ''I''" by code_simp
  have v: "tx_after ?t = 900"
    "indirect_contribution (group_of (transaction_type ?r) sample_marker) = 500"
    "holdings_contribution sample_marker = 0"
    by code_simp+
  from non_indirect_marker_is_direct [OF e m g n] p
  have "total_shares_after_transaction ?r =
      tx_after ?t + indirect_contribution (group_of (transaction_type ?r) sample_marker)
      + holdings_contribution sample_marker"
    by blast
  then have "total_shares_after_transaction ?r = 900 + 500 + 0"
    unfolding v .
  with e m g o show ?thesis by blast
qed




section \<open>Properties of the stream client\<close>

subsection \<open>The trace of one filing event\<close>

lemma fetch_insider_trades_shape:
  "\<exists>fan e. fetch_insider_trades c api a t l = (Sleep 15 # GetData a # fan, e) \<and>
     (fan = [] \<or> (\<exists>x. fan = [SignalNotification x, InsertData x]))"
  by (auto simp: fetch_insider_trades_def Let_def
        split: sum.splits list.splits bool.splits if_splits)

lemma on_filings_shape:
  "(\<not> is_candidate f \<and> on_filings c api f = []) \<or>
   (is_candidate f \<and> (\<exists>tl. on_filings c api f = Sleep 15 # tl \<and> elapsed tl = 0 \<and>
      Recv \<notin> set tl \<and> Connect \<notin> set tl))"
proof (cases "is_candidate f")
  case False
  then show ?thesis by (auto simp: on_filings_def is_candidate_def Let_def)
next
  case True
  let ?a = "get_default (ev_accessionNo f) []"
  obtain fan e where
    fetch: "fetch_insider_trades c api ?a (get_default (ev_ticker f) [])
        (get_default (linkToFilingDetails f) []) = (Sleep 15 # GetData ?a # fan, e)" and
    fan: "fan = [] \<or> (\<exists>x. fan = [SignalNotification x, InsertData x])"
    using fetch_insider_trades_shape by blast
  from True have "on_filings c api f =
      Sleep 15 # GetData ?a # fan @ (case e of None \<Rightarrow> [] | Some x \<Rightarrow> [PrintFailed x])"
    using fetch by (auto simp: on_filings_def is_candidate_def Let_def split: option.splits)
  moreover from fan
  have "elapsed (GetData ?a # fan @ (case e of None \<Rightarrow> [] | Some x \<Rightarrow> [PrintFailed x])) = 0"
    by (auto split: option.splits)
  moreover from fan
  have "Recv \<notin> set (GetData ?a # fan @ (case e of None \<Rightarrow> [] | Some x \<Rightarrow> [PrintFailed x]))"
    "Connect \<notin> set (GetData ?a # fan @ (case e of None \<Rightarrow> [] | Some x \<Rightarrow> [PrintFailed x]))"
    by (auto split: option.splits)
  ultimately show ?thesis using True by blast
qed

lemma elapsed_append: "elapsed (xs @ ys) = elapsed xs + elapsed ys"
  by (induction xs rule: elapsed.induct) simp_all

lemma recv_times_append:
  "recv_times now (xs @ ys) = recv_times now xs @ recv_times (now + elapsed xs) ys"
  by (induction now xs rule: recv_times.induct) (simp_all add: add.assoc)

lemma recv_times_no_recv: "Recv \<notin> set xs \<Longrightarrow> recv_times now xs = []"
  by (induction now xs rule: recv_times.induct) simp_all

lemma on_filings_elapsed: "elapsed (on_filings c api f) = (if is_candidate f then 15 else 0)"
  using on_filings_shape [of f c api] by auto

lemma on_filings_no_recv: "Recv \<notin> set (on_filings c api f)"
  using on_filings_shape [of f c api] by auto

lemma on_filings_no_connect: "Connect \<notin> set (on_filings c api f)"
  using on_filings_shape [of f c api] by auto

lemma batch_elapsed:
  "elapsed (concat (map (on_filings c api) fs)) = 15 * length (filter is_candidate fs)"
  by (induction fs) (simp_all add: elapsed_append on_filings_elapsed)

lemma receive_loop_no_connect: "Connect \<notin> set (receive_loop c api ms)"
  by (induction c api ms rule: receive_loop.induct) (simp_all add: on_filings_no_connect)

text \<open>
  C9, as the code has it. Two messages of one candidate event each: the second message
  is received 15 time units after the first, behind the settle delay of the first
  message's event, which \<open>main\<close> awaits before it calls \<open>recv\<close> again.
\<close>

theorem settle_delay_blocks_next_message:
  "recv_times 0 (receive_loop sample_constants sample_provider
      [Batch [sample_event], Batch [sample_event]]) = [0, 15] \<and>
   take 2 (receive_loop sample_constants sample_provider
      [Batch [sample_event], Batch [sample_event]]) = [Recv, Sleep 15]"
  by code_simp

text \<open>
  C9, amended. While connected, the pipeline of every event is awaited inside the receive
  loop, one event after the other: the next message is received only when the 15 time
  units of settle delay of every candidate event of the current batch have passed.
\<close>

theorem pipeline_awaited_in_receive_loop:
  "recv_times now (receive_loop c api (Batch filings # ms)) =
     now # recv_times (now + 15 * length (filter is_candidate filings)) (receive_loop c api ms)"
proof -
  have "Recv \<notin> set (concat (map (on_filings c api) filings))"
    by (simp add: on_filings_no_recv)
  then have "recv_times now (concat (map (on_filings c api) filings)) = []"
    by (rule recv_times_no_recv)
  then show ?thesis
    by (simp add: recv_times_append batch_elapsed)
qed


subsection \<open>The reconnect loop\<close>

lemma main_loop_stop:
  "max_retries \<le> retry_counter s \<Longrightarrow> main_loop c api as s = ([PrintStopping], Stopped)"
  by (cases as) simp_all

lemma main_loop_fail:
  assumes "retry_counter s < max_retries" and "\<not> ping_task s"
  shows "main_loop c api (ConnectFails pa # as) s =
     (Connect # PrintReconnecting (Suc (retry_counter s)) # Sleep 5 #
        fst (main_loop c api as (s\<lparr>retry_counter := Suc (retry_counter s)\<rparr>)),
      snd (main_loop c api as (s\<lparr>retry_counter := Suc (retry_counter s)\<rparr>)))"
  using assms by (simp add: handle_exception_def Let_def case_prod_beta)

lemma main_loop_session_settled:
  assumes "retry_counter s < max_retries"
  shows "main_loop c api (Session ms PingSettled # as) s =
     (Connect # Connected # receive_loop c api ms @
        PrintReconnecting 1 # CancelPing # Sleep 5 #
        fst (main_loop c api as (s\<lparr>retry_counter := 1, ping_task := False\<rparr>)),
      snd (main_loop c api as (s\<lparr>retry_counter := 1, ping_task := False\<rparr>)))"
  using assms by (simp add: handle_exception_def Let_def case_prod_beta)

lemma main_loop_session_cancelled:
  assumes "retry_counter s < max_retries"
  shows "main_loop c api (Session ms PingCancelledError # as) s =
     (Connect # Connected # receive_loop c api ms @ [PrintReconnecting 1, CancelPing], Crashed)"
  using assms by (simp add: handle_exception_def Let_def)

lemma main_loop_Nil:
  "main_loop c api [] s =
     (if retry_counter s < max_retries then ([], Pending) else ([PrintStopping], Stopped))"
  by simp

declare main_loop.simps [simp del]

lemma failures_stop:
  "\<forall>a\<in>set fs. is_connect_failure a \<Longrightarrow> max_retries \<le> retry_counter s + length fs \<Longrightarrow>
   \<not> ping_task s \<Longrightarrow>
   main_loop c api (fs @ rest) s = main_loop c api fs s \<and>
   snd (main_loop c api fs s) = Stopped"
proof (induction fs arbitrary: s)
  case Nil
  then show ?case by (simp add: main_loop_stop)
next
  case (Cons a fs)
  show ?case
  proof (cases "retry_counter s < max_retries")
    case False
    then show ?thesis by (simp add: main_loop_stop)
  next
    case True
    from Cons.prems(1) obtain pa where a: "a = ConnectFails pa" by (cases a) auto
    let ?s = "s\<lparr>retry_counter := Suc (retry_counter s)\<rparr>"
    from Cons.prems have "main_loop c api (fs @ rest) ?s = main_loop c api fs ?s \<and>
        snd (main_loop c api fs ?s) = Stopped"
      by (intro Cons.IH) simp_all
    with True Cons.prems(3) show ?thesis
      by (simp add: a main_loop_fail)
  qed
qed

lemma failures_stop_after:
  "\<forall>a\<in>set fs. is_connect_failure a \<Longrightarrow> length fs = max_retries \<Longrightarrow> \<not> ping_task s \<Longrightarrow>
   main_loop c api (pre @ fs @ rest) s = main_loop c api (pre @ fs) s \<and>
   snd (main_loop c api (pre @ fs) s) \<noteq> Pending \<and>
   ((\<forall>a\<in>set pre. settles a) \<longrightarrow> snd (main_loop c api (pre @ fs) s) = Stopped)"
proof (induction pre arbitrary: s)
  case Nil
  with failures_stop [of fs s c api rest] show ?case by simp
next
  case (Cons a pre)
  show ?case
  proof (cases "retry_counter s < max_retries")
    case False
    then show ?thesis by (simp add: main_loop_stop)
  next
    case True
    show ?thesis
    proof (cases a)
      case (ConnectFails pa)
      let ?s = "s\<lparr>retry_counter := Suc (retry_counter s)\<rparr>"
      from Cons.prems have "main_loop c api (pre @ fs @ rest) ?s = main_loop c api (pre @ fs) ?s \<and>
          snd (main_loop c api (pre @ fs) ?s) \<noteq> Pending \<and>
          ((\<forall>a\<in>set pre. settles a) \<longrightarrow> snd (main_loop c api (pre @ fs) ?s) = Stopped)"
        by (intro Cons.IH) simp_all
      with True Cons.prems(3) show ?thesis
        by (simp add: ConnectFails main_loop_fail)
    next
      case (Session ms pa)
      show ?thesis
      proof (cases pa)
        case PingSettled
        let ?s = "s\<lparr>retry_counter := 1, ping_task := False\<rparr>"
        from Cons.prems have
          "main_loop c api (pre @ fs @ rest) ?s = main_loop c api (pre @ fs) ?s \<and>
           snd (main_loop c api (pre @ fs) ?s) \<noteq> Pending \<and>
           ((\<forall>a\<in>set pre. settles a) \<longrightarrow> snd (main_loop c api (pre @ fs) ?s) = Stopped)"
          by (intro Cons.IH) simp_all
        with True show ?thesis
          by (simp add: Session PingSettled main_loop_session_settled)
      next
        case PingCancelledError
        with True show ?thesis
          by (simp add: Session main_loop_session_cancelled)
      qed
    qed
  qed
qed

lemma count_connect_receive_loop: "count_list (receive_loop c api ms) Connect = 0"
  using receive_loop_no_connect [of c api ms] by (simp add: count_list_0_iff)

lemma count_connect_main_loop:
  "\<not> ping_task s \<Longrightarrow> count_list (fst (main_loop c api as s)) Connect \<le> length as"
proof (induction as arbitrary: s)
  case Nil
  then show ?case by (simp add: main_loop_Nil)
next
  case (Cons a as)
  show ?case
  proof (cases "retry_counter s < max_retries")
    case False
    then show ?thesis by (simp add: main_loop_stop)
  next
    case True
    show ?thesis
    proof (cases a)
      case (ConnectFails pa)
      have "count_list (fst (main_loop c api as (s\<lparr>retry_counter := Suc (retry_counter s)\<rparr>)))
          Connect \<le> length as"
        using Cons.prems by (intro Cons.IH) simp
      with True Cons.prems show ?thesis
        by (simp add: ConnectFails main_loop_fail)
    next
      case (Session ms pa)
      have "count_list (fst (main_loop c api as (s\<lparr>retry_counter := 1, ping_task := False\<rparr>)))
          Connect \<le> length as"
        by (intro Cons.IH) simp
      with True show ?thesis
        by (cases pa)
           (simp_all add: Session main_loop_session_settled main_loop_session_cancelled
              count_connect_receive_loop)
    qed
  qed
qed

lemma backoff_ok_append:
  "backoff_ok p (xs @ ys) = (backoff_ok p xs \<and> backoff_ok (last (p # xs)) ys)"
  by (induction xs arbitrary: p) auto

lemma backoff_ok_no_connect: "Connect \<notin> set xs \<Longrightarrow> backoff_ok p xs"
  by (induction xs arbitrary: p) auto

lemma backoff_ok_main_loop:
  "\<not> ping_task s \<Longrightarrow> backoff_ok (Sleep 5) (fst (main_loop c api as s))"
proof (induction as arbitrary: s)
  case Nil
  then show ?case by (simp add: main_loop_Nil)
next
  case (Cons a as)
  show ?case
  proof (cases "retry_counter s < max_retries")
    case False
    then show ?thesis by (simp add: main_loop_stop)
  next
    case True
    show ?thesis
    proof (cases a)
      case (ConnectFails pa)
      have "backoff_ok (Sleep 5)
          (fst (main_loop c api as (s\<lparr>retry_counter := Suc (retry_counter s)\<rparr>)))"
        using Cons.prems by (intro Cons.IH) simp
      with True Cons.prems show ?thesis
        by (simp add: ConnectFails main_loop_fail)
    next
      case (Session ms pa)
      have ih: "backoff_ok (Sleep 5)
          (fst (main_loop c api as (s\<lparr>retry_counter := 1, ping_task := False\<rparr>)))"
        by (intro Cons.IH) simp
      have recv: "backoff_ok e (receive_loop c api ms)" for e
        by (rule backoff_ok_no_connect) (rule receive_loop_no_connect)
      from True ih recv show ?thesis
        by (cases pa)
           (simp_all add: Session main_loop_session_settled main_loop_session_cancelled
              backoff_ok_append)
    qed
  qed
qed

lemma backoff_ok_before_connect:
  assumes "backoff_ok p (xs @ e # Connect # ys)"
  shows "e = Sleep 5"
  using assms by (simp add: backoff_ok_append)

text \<open>
  C8. When ten connect attempts in a row have failed, \<open>main\<close> has left its loop: it makes
  no further attempt, whatever the outside world would offer, and it has stopped
  (it cannot have ended otherwise unless \<open>await ping_task\<close> raised \<open>CancelledError\<close>
  earlier). Every connection made sets the retry counter to 0, so the attempt number
  printed when that connection is lost is 1. And every connect attempt but the first
  comes right after a sleep of 5.
\<close>

theorem stops_after_ten_failed_connects:
  assumes "\<forall>a\<in>set fs. is_connect_failure a" and "length fs = 10"
  shows "main c api (pre @ fs @ rest) = main c api (pre @ fs) \<and>
         snd (main c api (pre @ fs)) \<noteq> Pending \<and>
         ((\<forall>a\<in>set pre. settles a) \<longrightarrow> snd (main c api (pre @ fs)) = Stopped) \<and>
         count_list (fst (main c api (pre @ fs @ rest))) Connect \<le> length pre + 10 \<and>
         (retry_counter s < max_retries \<longrightarrow>
            (\<exists>tl. fst (main_loop c api (Session ms pa # as) s) =
               Connect # Connected # receive_loop c api ms @
               PrintReconnecting 1 # CancelPing # tl)) \<and>
         (fst (main c api as') = xs @ e # Connect # ys \<longrightarrow> e = Sleep 5)"
proof -
  let ?s0 = "\<lparr>retry_counter = 0, ping_task = False\<rparr>"
  from assms have stop:
    "main_loop c api (pre @ fs @ rest) ?s0 = main_loop c api (pre @ fs) ?s0 \<and>
     snd (main_loop c api (pre @ fs) ?s0) \<noteq> Pending \<and>
     ((\<forall>a\<in>set pre. settles a) \<longrightarrow> snd (main_loop c api (pre @ fs) ?s0) = Stopped)"
    by (intro failures_stop_after) (simp_all add: max_retries_def)
  have "count_list (fst (main_loop c api (pre @ fs) ?s0)) Connect \<le> length (pre @ fs)"
    by (rule count_connect_main_loop) simp
  with stop assms(2)
  have count: "count_list (fst (main c api (pre @ fs @ rest))) Connect \<le> length pre + 10"
    by (simp add: main_def)
  have reset: "\<exists>tl. fst (main_loop c api (Session ms pa # as) s) =
      Connect # Connected # receive_loop c api ms @ PrintReconnecting 1 # CancelPing # tl"
    if "retry_counter s < max_retries"
    using that
    by (cases pa) (simp_all add: main_loop_session_settled main_loop_session_cancelled)
  have "backoff_ok (Sleep 5) (fst (main c api as'))"
    unfolding main_def by (rule backoff_ok_main_loop) simp
  then have backoff: "e = Sleep 5" if "fst (main c api as') = xs @ e # Connect # ys"
    using that backoff_ok_before_connect by metis
  from stop count reset backoff show ?thesis
    by (simp add: main_def)
qed


theorem stops_after_ten_failed_connects_witness:
  "length (replicate 10 (ConnectFails PingSettled)) = 10 \<and>
   main sample_constants sample_provider
     ([Session [Batch [sample_event]] PingSettled] @ replicate 10 (ConnectFails PingSettled) @
      [Session [] PingSettled]) =
   main sample_constants sample_provider
     ([Session [Batch [sample_event]] PingSettled] @ replicate 10 (ConnectFails PingSettled)) \<and>
   snd (main sample_constants sample_provider
     ([Session [Batch [sample_event]] PingSettled] @ replicate 10 (ConnectFails PingSettled)))
     = Stopped \<and>
   count_list (fst (main sample_constants sample_provider
     ([Session [Batch [sample_event]] PingSettled] @ replicate 10 (ConnectFails PingSettled) @
      [Session [] PingSettled]))) Connect = 10 \<and>
   fst (main_loop sample_constants sample_provider [Session [] PingSettled]
     \<lparr>retry_counter = 3, ping_task = False\<rparr>) =
     [Connect, Connected, PrintReconnecting 1, CancelPing, Sleep 5] \<and>
   fst (main sample_constants sample_provider
     [ConnectFails PingSettled, ConnectFails PingSettled]) =
     [Connect, PrintReconnecting 1] @ Sleep 5 # Connect # [PrintReconnecting 2, Sleep 5]"
proof -
  let ?pre = "[Session [Batch [sample_event]] PingSettled]"
  let ?fs = "replicate 10 (ConnectFails PingSettled)"
  let ?rest = "[Session [] PingSettled]"
  have f: "\<forall>a\<in>set ?fs. is_connect_failure a" by simp
  have l: "length ?fs = 10" by simp
  have p: "\<forall>a\<in>set ?pre. settles a" by simp
  have r: "retry_counter \<lparr>retry_counter = 3, ping_task = False\<rparr> < max_retries"
    by (simp add: max_retries_def)
  have n: "count_list (fst (main sample_constants sample_provider (?pre @ ?fs @ ?rest)))
     Connect = 10" by code_simp
  have t: "fst (main_loop sample_constants sample_provider [Session [] PingSettled]
     \<lparr>retry_counter = 3, ping_task = False\<rparr>) =
     [Connect, Connected, PrintReconnecting 1, CancelPing, Sleep 5]" by code_simp
  have b: "fst (main sample_constants sample_provider
     [ConnectFails PingSettled, ConnectFails PingSettled]) =
     [Connect, PrintReconnecting 1] @ Sleep 5 # Connect # [PrintReconnecting 2, Sleep 5]"
    by code_simp
  from stops_after_ten_failed_connects [OF f l, of sample_constants sample_provider ?pre ?rest]
    p
  have "main sample_constants sample_provider (?pre @ ?fs @ ?rest) =
      main sample_constants sample_provider (?pre @ ?fs)"
    and "snd (main sample_constants sample_provider (?pre @ ?fs)) = Stopped"
    by blast+
  with l n t b show ?thesis by blast
qed

end
